theory Spec2Isabelle
  imports Complex_Main
begin

section \<open>Page interactivity controller of wolf-byte-showcase (assets/js/main.js)\<close>

text \<open>
  The module is one \<open>DOMContentLoaded\<close> callback that wires event listeners, four
  intersection observers, an interval-driven counter and a frame-driven canvas chart.
  Each handler is embedded as a function on the part of the page it reads and writes.

  Numbers: a JavaScript number is an IEEE double. In the counter, where a sum of rounded
  terms decides when the timer ends, the rounding is a parameter of the model (see
  \<open>js_number\<close>). Elsewhere the embedding computes with exact numbers: \<open>nat\<close> for the
  integer \<open>parseInt\<close> reads, \<open>real\<close> for coordinates, times and styles, \<open>int\<close> for what
  \<open>Math.floor\<close> returns. Strings are byte strings: every character the code tests for
  (\<open>0\<close>..\<open>9\<close>, \<open>+\<close>, \<open>-\<close>, \<open>%\<close>) is ASCII, and a character beyond ASCII is a run of bytes
  above 127, none of which is one of these.
\<close>

subsection \<open>Strings and numbers of the counter animator\<close>

text \<open>The character class \<open>[0-9]\<close> of the regular expression in \<open>animateValue\<close>.\<close>

definition is_digit :: "char \<Rightarrow> bool" where
  "is_digit c = (48 \<le> (of_char c :: nat) \<and> (of_char c :: nat) \<le> 57)"

definition digit_val :: "char \<Rightarrow> nat" where
  "digit_val c = of_char c - 48"

definition digit_char :: "nat \<Rightarrow> char" where
  "digit_char d = char_of (48 + d)"

text \<open>\<open>text.replace(/[^0-9]/g, '')\<close>: every character that is not a digit is removed.\<close>

definition replace_non_digits :: "string \<Rightarrow> string" where
  "replace_non_digits text = filter is_digit text"

text \<open>
  \<open>String.prototype.includes\<close>: the needle occurs somewhere in the string.
\<close>

fun includes_str :: "string \<Rightarrow> string \<Rightarrow> bool" where
  "includes_str [] t = (t = [])"
| "includes_str (c # s) t = (take (length t) (c # s) = t \<or> includes_str s t)"

text \<open>
  \<open>parseInt\<close> without a radix, on the strings \<open>animateValue\<close> passes to it: these hold
  digits only, so the white space, sign and \<open>0x\<close> branches of \<open>parseInt\<close> cannot be
  taken. The longest prefix of decimal digits is read; \<open>None\<close> is \<open>NaN\<close>.
\<close>

definition parseInt :: "string \<Rightarrow> nat option" where
  "parseInt s =
     (let ds = takeWhile is_digit s
      in if ds = [] then None else Some (foldl (\<lambda>a c. 10 * a + digit_val c) 0 ds))"

text \<open>The decimal numeral of a natural number.\<close>

fun digits :: "nat \<Rightarrow> string" where
  "digits n = (if n < 10 then [digit_char n] else digits (n div 10) @ [digit_char (n mod 10)])"

declare digits.simps [simp del]

text \<open>
  \<open>Number::toString\<close> on a number with an integral value. For a safe integer, one of
  magnitude below \<open>2 ^ 53\<close>, it is the decimal numeral. Beyond, it prints the shortest
  digits that read back as the same double, with zeros after them (\<open>2 ^ 64\<close> prints as
  \<open>18446744073709552000\<close>), exponent notation from \<open>10 ^ 21\<close> on (\<open>1e+21\<close>), and
  \<open>Infinity\<close> for what has overflowed, which the model holds as a number of at least
  \<open>2 ^ 1024 - 2 ^ 970\<close>. Which digits these are depends on the doubles and, in the last
  digit, on the engine: this part of the printing is the parameter \<open>large\<close>.
\<close>

definition number_toString :: "(int \<Rightarrow> string) \<Rightarrow> int \<Rightarrow> string" where
  "number_toString large i =
     (if \<bar>i\<bar> < 2 ^ 53
      then (if i < 0 then CHR ''-'' # digits (nat (- i)) else digits (nat i))
      else large i)"

subsection \<open>The counter animator: \<open>animateValue\<close> and its interval callback\<close>

record element =
  textContent :: string

text \<open>
  The variables the interval callback closes over. \<open>cleared\<close> is set by
  \<open>clearInterval(timer)\<close>: the browser calls the callback every \<open>stepTime\<close> milliseconds
  until then.
\<close>

record interval =
  hasPercent :: bool
  hasPlus :: bool
  hasMinus :: bool
  numericValue :: real
  increment :: real
  current :: real
  cleared :: bool

definition duration :: real where
  "duration = 2000"

definition stepTime :: real where
  "stepTime = 50"

definition steps :: real where
  "steps = duration / stepTime"

text \<open>
  The rounding of JavaScript arithmetic. Every arithmetic operation on numbers returns
  the double nearest to the exact result, written \<open>fl\<close> below. In the counter the running
  value is a sum of rounded terms, and the call at which it reaches the target depends
  on the rounding, so \<open>fl\<close> is a parameter of the counter model. \<open>js_number fl\<close> is what
  is assumed of it: it is monotone, it leaves a number that is a double as it is, and its
  relative error is at most \<open>1 / 2 ^ 53\<close> (round to nearest, short of overflow and
  underflow). Exact arithmetic, \<open>fl = (\<lambda>x. x)\<close>, is one instance. The exponent range of
  the model is not bounded: where the program holds \<open>Infinity\<close>, for digits that write
  a number of \<open>2 ^ 1024 - 2 ^ 970\<close> or more, it clears the interval at the first call with
  the text \<open>Infinity\<close> and its decorations, and the model holds a number that \<open>large\<close>
  prints.
\<close>

definition unit_roundoff :: real where
  "unit_roundoff = 1 / 2 ^ 53"

definition js_number :: "(real \<Rightarrow> real) \<Rightarrow> bool" where
  "js_number fl =
     ((\<forall>x y. x \<le> y \<longrightarrow> fl x \<le> fl y)
      \<and> (\<forall>x. fl (fl x) = fl x)
      \<and> (\<forall>x. \<bar>fl x - x\<bar> \<le> unit_roundoff * \<bar>x\<bar>))"

text \<open>
  \<open>animateValue(element)\<close> returns the element and the interval it has started, \<open>None\<close>
  when it returned at \<open>isNaN(numericValue)\<close> before \<open>setInterval\<close>. \<open>parseInt\<close> returns the
  double of the integer it reads; \<open>duration / stepTime\<close> is 40 exactly.
\<close>

definition animateValue :: "(real \<Rightarrow> real) \<Rightarrow> element \<Rightarrow> element \<times> interval option" where
  "animateValue fl element =
     (let text = textContent element
      in case parseInt (replace_non_digits text) of
           None \<Rightarrow> (element, None)
         | Some n \<Rightarrow>
             (element,
              Some \<lparr>hasPercent = includes_str text ''%'',
                    hasPlus = includes_str text ''+'',
                    hasMinus = includes_str text ''-'',
                    numericValue = fl (real n),
                    increment = fl (fl (real n) / steps),
                    current = 0,
                    cleared = False\<rparr>))"

text \<open>Lines 78 to 82 of the callback: accumulate, clamp at the target, clear the timer.\<close>

definition advance :: "(real \<Rightarrow> real) \<Rightarrow> interval \<Rightarrow> interval" where
  "advance fl a =
     (let a1 = a\<lparr>current := fl (current a + increment a)\<rparr>
      in if current a1 \<ge> numericValue a1
         then a1\<lparr>current := numericValue a1, cleared := True\<rparr>
         else a1)"

text \<open>Lines 84 to 87: the text to display, decorated in the order the source does it.\<close>

definition displayValue :: "(int \<Rightarrow> string) \<Rightarrow> interval \<Rightarrow> string" where
  "displayValue large a =
     (let d0 = number_toString large \<lfloor>current a\<rfloor>;
          d1 = (if hasMinus a then ''-'' @ d0 else d0);
          d2 = (if hasPlus a then ''+'' @ d1 else d1);
          d3 = (if hasPercent a then d2 @ ''%'' else d2)
      in d3)"

definition tick ::
  "(real \<Rightarrow> real) \<Rightarrow> (int \<Rightarrow> string) \<Rightarrow> element \<times> interval \<Rightarrow> element \<times> interval" where
  "tick fl large s =
     (case s of (element, a) \<Rightarrow>
        let a' = advance fl a
        in (element\<lparr>textContent := displayValue large a'\<rparr>, a'))"

text \<open>
  The browser's side of \<open>setInterval\<close>: \<open>ticks fl large k s\<close> is the state after \<open>k\<close>
  periods, the callback running in each period in which the timer is not yet cleared.
  \<open>run_interval fl large fuel s\<close> runs the timer to its end: \<open>None\<close> when it is still
  registered after \<open>fuel\<close> calls of the callback.
\<close>

primrec ticks ::
  "(real \<Rightarrow> real) \<Rightarrow> (int \<Rightarrow> string) \<Rightarrow> nat \<Rightarrow> element \<times> interval \<Rightarrow> element \<times> interval" where
  "ticks fl large 0 s = s"
| "ticks fl large (Suc k) s = (if cleared (snd s) then s else ticks fl large k (tick fl large s))"

primrec run_interval ::
  "(real \<Rightarrow> real) \<Rightarrow> (int \<Rightarrow> string) \<Rightarrow> nat \<Rightarrow> element \<times> interval
     \<Rightarrow> (element \<times> interval) option" where
  "run_interval fl large 0 s = (if cleared (snd s) then Some s else None)"
| "run_interval fl large (Suc fuel) s =
     (if cleared (snd s) then Some s else run_interval fl large fuel (tick fl large s))"

text \<open>
  The reading of the specification, for comparison with \<open>animateValue\<close>: the magnitude
  is the first sequence of digits found in the text.
\<close>

definition spec_first_digit_sequence :: "string \<Rightarrow> string" where
  "spec_first_digit_sequence text = takeWhile is_digit (dropWhile (\<lambda>c. \<not> is_digit c) text)"

definition spec_magnitude :: "string \<Rightarrow> nat option" where
  "spec_magnitude text = parseInt (spec_first_digit_sequence text)"

subsection \<open>One-shot intersection observers\<close>

text \<open>
  The four observers (\<open>observer\<close> for the counters, \<open>typingObserver\<close>, \<open>chartObserver\<close>,
  \<open>animateOnScroll\<close>) share one callback shape: for each entry in order, if it is
  intersecting, run the action on its target and unobserve the target. They differ in
  the action only. An observer is the set of elements it observes, with the list of the
  actions its callback has run so far.
\<close>

datatype observer_kind = Stats | Typing | Chart | Entrance

datatype 'e action =
    AnimateValue 'e
  | ShowAfter300 'e
  | DrawChart 'e
  | AddAnimateIn 'e

record 'e entry =
  target :: 'e
  isIntersecting :: bool

record 'e intersection_observer =
  observed :: "'e set"
  actions :: "'e action list"

fun action_of :: "observer_kind \<Rightarrow> 'e \<Rightarrow> 'e action" where
  "action_of Stats t = AnimateValue t"
| "action_of Typing t = ShowAfter300 t"
| "action_of Chart t = DrawChart t"
| "action_of Entrance t = AddAnimateIn t"

text \<open>\<open>entries.forEach(entry => { if (entry.isIntersecting) { action; unobserve } })\<close>\<close>

fun callback :: "observer_kind \<Rightarrow> 'e entry list \<Rightarrow> 'e intersection_observer \<Rightarrow> 'e intersection_observer" where
  "callback kind [] ob = ob"
| "callback kind (entry # entries) ob =
     callback kind entries
       (if isIntersecting entry
        then ob\<lparr>actions := actions ob @ [action_of kind (target entry)],
                observed := observed ob - {target entry}\<rparr>
        else ob)"

text \<open>
  The browser's side. It calls the callback with batches of entries, and every entry of
  a batch is about an element the observer observes when the batch is delivered: this is
  what \<open>unobserve\<close> buys. \<open>browser_batches\<close> says that a sequence of batches is one the
  browser can deliver from a given observer state; \<open>run_batches\<close> runs the callback on
  the batches in turn.
\<close>

fun browser_batches :: "observer_kind \<Rightarrow> 'e entry list list \<Rightarrow> 'e intersection_observer \<Rightarrow> bool" where
  "browser_batches kind [] ob = True"
| "browser_batches kind (batch # batches) ob =
     (list_all (\<lambda>entry. target entry \<in> observed ob) batch
      \<and> browser_batches kind batches (callback kind batch ob))"

fun run_batches :: "observer_kind \<Rightarrow> 'e entry list list \<Rightarrow> 'e intersection_observer \<Rightarrow> 'e intersection_observer" where
  "run_batches kind [] ob = ob"
| "run_batches kind (batch # batches) ob = run_batches kind batches (callback kind batch ob)"

text \<open>\<open>new IntersectionObserver(...)\<close> followed by \<open>observe\<close> on each selected element.\<close>

definition observe_all :: "'e list \<Rightarrow> 'e intersection_observer" where
  "observe_all elements = \<lparr>observed = set elements, actions = []\<rparr>"

text \<open>The number of intersecting entries of a batch that are about the element \<open>t\<close>.\<close>

definition triggers :: "'e \<Rightarrow> 'e entry list \<Rightarrow> nat" where
  "triggers t batch = length (filter (\<lambda>entry. isIntersecting entry \<and> target entry = t) batch)"

subsection \<open>The contact form\<close>

datatype js_error = TypeError

record styled_element = element +
  background :: string

text \<open>
  A form control: its name (empty when it has none), its kind, whether it is disabled,
  its current value and, for a checkbox or radio button, whether it is checked, with the
  default value and the default checkedness that \<open>form.reset()\<close> gives back. A text-like
  control is a text input, a text area or a select with one value. The form holds its
  controls in tree order and its submit control, \<open>None\<close> where
  \<open>contactForm.querySelector('.submit-button')\<close> is \<open>null\<close>.
\<close>

datatype control_kind = TextLike | Checkable | Button

record field =
  name :: string
  field_kind :: control_kind
  disabled :: bool
  field_value :: string
  defaultValue :: string
  checked :: bool
  defaultChecked :: bool

record form =
  controls :: "field list"
  submitButton :: "styled_element option"













subsection \<open>Scroll listeners: header background and hero parallax\<close>

datatype css_transform = TranslateY real

record hero_style =
  transform :: css_transform
  opacity :: real

text \<open>
  The elements the module looks up once, \<open>None\<close> where \<open>querySelector\<close> or
  \<open>getElementById\<close> returns \<open>null\<close>, and the scroll offset (\<open>window.scrollY\<close>, of which
  \<open>window.pageYOffset\<close> is an alias).
\<close>

record page =
  menuToggle :: "unit option"
  navMenu :: "unit option"
  header :: "styled_element option"
  heroContent :: "hero_style option"
  contactForm :: "form option"
  chartCanvas :: "unit option"
  scrollY :: real

text \<open>
  Lines 34 to 41. \<open>header\<close> is read outside the listener and used in it without a test:
  \<open>header.style\<close> on \<open>null\<close> throws a \<open>TypeError\<close>.
\<close>

definition header_scroll_listener :: "page \<Rightarrow> js_error + page" where
  "header_scroll_listener p =
     (case header p of
        None \<Rightarrow> Inl TypeError
      | Some h \<Rightarrow>
          Inr (p\<lparr>header := Some
            (if scrollY p > 100
             then h\<lparr>background := ''rgba(10, 10, 10, 0.98)''\<rparr>
             else h\<lparr>background :=
               ''linear-gradient(180deg, rgba(10,10,10,0.95) 0%, rgba(26,26,26,0.9) 100%)''\<rparr>)\<rparr>))"

text \<open>Lines 267 to 274. The hero element is looked up in the listener and tested.\<close>

definition parallax_scroll_listener :: "page \<Rightarrow> js_error + page" where
  "parallax_scroll_listener p =
     (let scrolled = scrollY p
      in case heroContent p of
           None \<Rightarrow> Inr p
         | Some h \<Rightarrow>
             Inr (p\<lparr>heroContent := Some
               (h\<lparr>transform := TranslateY (scrolled * 0.5),
                  opacity := 1 - (scrolled / 600)\<rparr>)\<rparr>))"

text \<open>
  The listeners of these elements, as the initialisation registers them. Those of the
  menu toggle, the form and the chart are registered under \<open>if (element)\<close>; the two
  scroll listeners always are.
\<close>

datatype listener = MenuClick | HeaderScroll | FormSubmit | ChartIntersection | ParallaxScroll

definition registered :: "page \<Rightarrow> listener list" where
  "registered p =
     (if menuToggle p \<noteq> None then [MenuClick] else [])
     @ [HeaderScroll]
     @ (if contactForm p \<noteq> None then [FormSubmit] else [])
     @ (if chartCanvas p \<noteq> None then [ChartIntersection] else [])
     @ [ParallaxScroll]"

text \<open>
  A scroll event: the browser calls the scroll listeners in the order of registration.
  An exception in one is reported and does not keep the next from running, so the
  result lists what each listener did.
\<close>

definition scroll_event :: "page \<Rightarrow> js_error list \<times> page" where
  "scroll_event p =
     (let (e1, p1) = (case header_scroll_listener p of Inl e \<Rightarrow> ([e], p) | Inr p' \<Rightarrow> ([], p'));
          (e2, p2) = (case parallax_scroll_listener p1 of Inl e \<Rightarrow> ([e], p1) | Inr p' \<Rightarrow> ([], p'))
      in (e1 @ e2, p2))"

subsection \<open>The canvas chart: \<open>drawChart\<close> and its frame callback \<open>animate\<close>\<close>

datatype paint =
    Color string
  | LinearGradient real real real real "(real \<times> string) list"

datatype canvas_op =
    ClearRect real real real real
  | StrokeStyle paint
  | FillStyle paint
  | LineWidth real
  | LineCap string
  | LineJoin string
  | ShadowBlur real
  | ShadowColor string
  | BeginPath
  | MoveTo real real
  | LineTo real real
  | ClosePath
  | Arc real real real real real
  | Stroke
  | Fill

definition data :: "real list" where
  "data = [65, 78, 85, 72, 90, 95, 88, 92, 97, 100, 105, 110]"

definition padding :: real where
  "padding = 40"

definition animationDuration :: real where
  "animationDuration = 2000"

definition gradient :: "real \<Rightarrow> paint" where
  "gradient height =
     LinearGradient 0 padding 0 (height - padding)
       [(0, ''rgba(212, 175, 55, 0.3)''), (1, ''rgba(212, 175, 55, 0.05)'')]"

text \<open>
  \<open>Array.prototype.slice(0, end)\<close> for an integral \<open>end\<close>: a negative \<open>end\<close> counts from
  the end of the array, and the result is clamped to the array.
\<close>

definition slice0 :: "'a list \<Rightarrow> int \<Rightarrow> 'a list" where
  "slice0 xs end_ix =
     (let len = int (length xs);
          k = (if end_ix < 0 then max (len + end_ix) 0 else min end_ix len)
      in take (nat k) xs)"

text \<open>Lines 218 to 223: the points of the samples visible at \<open>progress\<close>.\<close>

definition points :: "real \<Rightarrow> real \<Rightarrow> real \<Rightarrow> (real \<times> real) list" where
  "points width height progress =
     (let chartWidth = width - padding * 2;
          chartHeight = height - padding * 2;
          maxValue = Max (set data)
      in map (\<lambda>(index, v).
                (padding + (chartWidth / (real (length data) - 1)) * real index,
                 height - padding - (v / maxValue) * chartHeight))
           (enumerate 0 (slice0 data \<lfloor>real (length data) * progress\<rfloor>)))"

text \<open>Lines 207 to 215: the six grid lines.\<close>

definition draw_grid :: "real \<Rightarrow> real \<Rightarrow> canvas_op list" where
  "draw_grid width height =
     (let chartHeight = height - padding * 2
      in [StrokeStyle (Color ''rgba(192, 192, 192, 0.1)''), LineWidth 1]
         @ concat (map (\<lambda>i. let y = padding + (chartHeight / 5) * real i
                              in [BeginPath, MoveTo padding y, LineTo (width - padding) y, Stroke])
                       [0..<6]))"

text \<open>Lines 226 to 233, 235 to 241 and 243 to 255, for a list of points that is not empty.\<close>

definition draw_area :: "real \<Rightarrow> (real \<times> real) list \<Rightarrow> canvas_op list" where
  "draw_area height pts =
     [FillStyle (gradient height), BeginPath, MoveTo (fst (hd pts)) (height - padding)]
     @ map (\<lambda>point. LineTo (fst point) (snd point)) pts
     @ [LineTo (fst (last pts)) (height - padding), ClosePath, Fill]"

definition draw_line :: "(real \<times> real) list \<Rightarrow> canvas_op list" where
  "draw_line pts =
     [StrokeStyle (Color ''#d4af37''), LineWidth 3, BeginPath, MoveTo (fst (hd pts)) (snd (hd pts))]
     @ map (\<lambda>point. LineTo (fst point) (snd point)) pts
     @ [Stroke]"

text \<open>\<open>Math.PI\<close>: the double nearest to \<open>\<pi>\<close>, by its shortest decimal numeral.\<close>

definition Math_PI :: real where
  "Math_PI = 3.141592653589793"

definition draw_points :: "(real \<times> real) list \<Rightarrow> canvas_op list" where
  "draw_points pts =
     concat (map (\<lambda>point.
        [FillStyle (Color ''#d4af37''), BeginPath, Arc (fst point) (snd point) 4 0 (Math_PI * 2), Fill,
         ShadowBlur 10, ShadowColor ''#d4af37'', Fill, ShadowBlur 0]) pts)"

text \<open>
  One call of \<open>animate\<close> at clock reading \<open>currentTime\<close>: the drawing operations of the
  frame, and whether \<open>requestAnimationFrame(animate)\<close> is called again.
\<close>

definition progress_at :: "real \<Rightarrow> real \<Rightarrow> real" where
  "progress_at startTime currentTime = min ((currentTime - startTime) / animationDuration) 1"

definition frame :: "real \<Rightarrow> real \<Rightarrow> real \<Rightarrow> canvas_op list" where
  "frame width height progress =
     (let pts = points width height progress
      in ClearRect 0 0 width height # draw_grid width height
         @ (if length pts > 1
            then draw_area height pts @ draw_line pts @ draw_points pts
            else []))"

definition animate :: "real \<Rightarrow> real \<Rightarrow> real \<Rightarrow> real \<Rightarrow> canvas_op list \<times> bool" where
  "animate width height startTime currentTime =
     (let progress = progress_at startTime currentTime
      in (frame width height progress, progress < 1))"

text \<open>
  The frame loop. The browser calls \<open>animate\<close> once per frame while it is requested; the
  list gives the clock reading of \<open>Date.now()\<close> in each of these calls. The result is the
  frames drawn and whether a further frame is still requested when the readings end.
\<close>

fun frame_loop :: "real \<Rightarrow> real \<Rightarrow> real \<Rightarrow> real list \<Rightarrow> canvas_op list list \<times> bool" where
  "frame_loop width height startTime [] = ([], True)"
| "frame_loop width height startTime (currentTime # later) =
     (let (ops, again) = animate width height startTime currentTime
      in if again
         then (let (frames, requested) = frame_loop width height startTime later
               in (ops # frames, requested))
         else ([ops], False))"

section \<open>Properties\<close>

subsection \<open>Digits, \<open>parseInt\<close> and \<open>includes\<close>\<close>

lemma includes_char: "includes_str s [c] = (c \<in> set s)"
  by (induction s) auto

lemma steps_eq: "steps = 40"
  by (simp add: steps_def duration_def stepTime_def)

lemma replace_non_digits_empty:
  "(replace_non_digits text = []) = (\<forall>c\<in>set text. \<not> is_digit c)"
  by (simp add: replace_non_digits_def filter_empty_conv)

lemma takeWhile_replace_non_digits:
  "takeWhile is_digit (replace_non_digits text) = replace_non_digits text"
  by (simp add: replace_non_digits_def)

lemma parseInt_None: "(parseInt s = None) = (takeWhile is_digit s = [])"
  by (simp add: parseInt_def Let_def)

lemma parseInt_replace_None:
  "(parseInt (replace_non_digits text) = None) = (\<forall>c\<in>set text. \<not> is_digit c)"
  by (simp add: parseInt_None takeWhile_replace_non_digits replace_non_digits_empty)

subsection \<open>Counter text without digits\<close>

text \<open>
  C8. When the text of a counter element holds no digit, \<open>animateValue\<close> returns the
  element as it was and starts no interval. The function has no failing branch: it reads
  \<open>textContent\<close>, which is a string on every element, and calls string methods only.
\<close>

theorem animateValue_no_digits:
  assumes "\<forall>c\<in>set (textContent element). \<not> is_digit c"
  shows "animateValue fl element = (element, None)"
proof -
  have "parseInt (replace_non_digits (textContent element)) = None"
    using assms by (simp add: parseInt_replace_None)
  then show ?thesis
    by (simp add: animateValue_def)
qed

theorem animateValue_no_digits_witness:
  "\<forall>fl. filter is_digit (textContent \<lparr>textContent = ''N/A''\<rparr>) = []
     \<and> animateValue fl \<lparr>textContent = ''N/A''\<rparr> = (\<lparr>textContent = ''N/A''\<rparr>, None)"
proof -
  have h: "\<forall>c\<in>set (textContent \<lparr>textContent = ''N/A''\<rparr>). \<not> is_digit c"
    by (simp add: is_digit_def)
  show ?thesis
    using animateValue_no_digits [OF h] by (simp add: is_digit_def)
qed

subsection \<open>Rounding\<close>

lemma unit_roundoff_range: "0 \<le> unit_roundoff" "unit_roundoff \<le> 1 / 1722"
  by (simp_all add: unit_roundoff_def)

lemma js_number_exact: "js_number (\<lambda>x. x)"
  by (simp add: js_number_def unit_roundoff_range)

lemma fl_mono: "js_number fl \<Longrightarrow> x \<le> y \<Longrightarrow> fl x \<le> fl y"
  by (simp add: js_number_def)

lemma fl_idem: "js_number fl \<Longrightarrow> fl (fl x) = fl x"
  by (simp add: js_number_def)

lemma fl_zero:
  assumes "js_number fl"
  shows "fl 0 = 0"
proof -
  have "\<bar>fl 0 - 0\<bar> \<le> unit_roundoff * \<bar>0\<bar>"
    using assms unfolding js_number_def by blast
  then show ?thesis by simp
qed

lemma fl_nonneg: "js_number fl \<Longrightarrow> 0 \<le> x \<Longrightarrow> 0 \<le> fl x"
  using fl_mono [of fl 0 x] by (simp add: fl_zero)

lemma fl_lower:
  assumes "js_number fl" "0 \<le> x"
  shows "(1 - unit_roundoff) * x \<le> fl x"
proof -
  have "\<bar>fl x - x\<bar> \<le> unit_roundoff * \<bar>x\<bar>"
    using assms(1) unfolding js_number_def by blast
  then have "x - fl x \<le> unit_roundoff * x"
    using assms(2) by simp
  then show ?thesis
    by (simp add: algebra_simps)
qed


subsection \<open>The interval callback\<close>

lemma advance_fields:
  "numericValue (advance fl a) = numericValue a"
  "increment (advance fl a) = increment a"
  "hasPercent (advance fl a) = hasPercent a"
  "hasPlus (advance fl a) = hasPlus a"
  "hasMinus (advance fl a) = hasMinus a"
  by (simp_all add: advance_def Let_def)

lemma advance_current_le: "current (advance fl a) \<le> numericValue a"
  by (simp add: advance_def Let_def)

lemma advance_cleared:
  "cleared (advance fl a) = (cleared a \<or> numericValue a \<le> fl (current a + increment a))"
  by (simp add: advance_def Let_def)

lemma advance_current:
  "current (advance fl a) =
     (if numericValue a \<le> fl (current a + increment a) then numericValue a
      else fl (current a + increment a))"
  by (simp add: advance_def Let_def)

lemma advance_current_mono:
  assumes "js_number fl" "0 \<le> increment a" "current a \<le> numericValue a" "fl (current a) = current a"
  shows "current a \<le> current (advance fl a)"
proof -
  have "current a \<le> current a + increment a"
    using assms(2) by simp
  with assms(1) have "fl (current a) \<le> fl (current a + increment a)"
    by (rule fl_mono)
  then have step: "current a \<le> fl (current a + increment a)"
    by (simp only: assms(4))
  show ?thesis
  proof (cases "numericValue a \<le> fl (current a + increment a)")
    case True
    then show ?thesis
      using assms(3) by (simp only: advance_current if_True)
  next
    case False
    then show ?thesis
      using step by (simp only: advance_current if_False)
  qed
qed

lemma advance_representable:
  assumes "js_number fl" "fl (numericValue a) = numericValue a"
  shows "fl (current (advance fl a)) = current (advance fl a)"
  using assms by (simp add: advance_current fl_idem)

lemma ticks_cleared: "cleared (snd s) \<Longrightarrow> ticks fl large k s = s"
  by (cases k) simp_all

lemma ticks_add: "ticks fl large (j + k) s = ticks fl large k (ticks fl large j s)"
proof (induction j arbitrary: s)
  case 0
  show ?case by simp
next
  case (Suc j)
  show ?case
    by (cases "cleared (snd s)") (simp_all add: Suc.IH ticks_cleared)
qed

lemma ticks_Suc_right:
  "ticks fl large (Suc k) s =
     (if cleared (snd (ticks fl large k s)) then ticks fl large k s else tick fl large (ticks fl large k s))"
  using ticks_add [of fl large k 1 s] by simp

lemma ticks_stay_cleared:
  assumes "cleared (snd (ticks fl large j s))" "j \<le> k"
  shows "ticks fl large k s = ticks fl large j s"
proof -
  have "ticks fl large (j + (k - j)) s = ticks fl large j s"
    unfolding ticks_add using assms(1) by (rule ticks_cleared)
  then show ?thesis
    using assms(2) by simp
qed

lemma run_interval_ticks:
  "run_interval fl large k s = (if cleared (snd (ticks fl large k s)) then Some (ticks fl large k s) else None)"
  by (induction k arbitrary: s) (simp_all add: ticks_cleared)

lemma tick_snd: "snd (tick fl large s) = advance fl (snd s)"
  by (cases s) (simp add: tick_def Let_def)

lemma tick_text: "textContent (fst (tick fl large s)) = displayValue large (snd (tick fl large s))"
  by (cases s) (simp add: tick_def Let_def)

lemma ticks_text:
  "textContent (fst s) = displayValue large (snd s) \<Longrightarrow>
   textContent (fst (ticks fl large k s)) = displayValue large (snd (ticks fl large k s))"
  by (induction k arbitrary: s) (simp_all add: tick_text)

lemma ticks_text_started:
  "\<not> cleared (snd s) \<Longrightarrow> 0 < k \<Longrightarrow>
   textContent (fst (ticks fl large k s)) = displayValue large (snd (ticks fl large k s))"
  by (cases k) (simp_all add: ticks_text tick_text)

lemma ticks_fields:
  "numericValue (snd (ticks fl large k s)) = numericValue (snd s)
   \<and> increment (snd (ticks fl large k s)) = increment (snd s)
   \<and> hasPercent (snd (ticks fl large k s)) = hasPercent (snd s)
   \<and> hasPlus (snd (ticks fl large k s)) = hasPlus (snd s)
   \<and> hasMinus (snd (ticks fl large k s)) = hasMinus (snd s)"
  by (induction k arbitrary: s) (simp_all add: tick_snd advance_fields)

text \<open>
  What holds of the running value throughout: it is a double, at most the target, and
  the target is a double.
\<close>

lemma ticks_invariant:
  assumes "js_number fl" "fl (numericValue (snd s)) = numericValue (snd s)"
    and "fl (current (snd s)) = current (snd s)" "current (snd s) \<le> numericValue (snd s)"
  shows "fl (current (snd (ticks fl large k s))) = current (snd (ticks fl large k s))
         \<and> current (snd (ticks fl large k s)) \<le> numericValue (snd s)"
  using assms(2-4)
proof (induction k arbitrary: s)
  case 0
  then show ?case by simp
next
  case (Suc k)
  show ?case
  proof (cases "cleared (snd s)")
    case True
    then show ?thesis using Suc.prems by simp
  next
    case False
    have "fl (numericValue (snd (tick fl large s))) = numericValue (snd (tick fl large s))"
      "fl (current (snd (tick fl large s))) = current (snd (tick fl large s))"
      "current (snd (tick fl large s)) \<le> numericValue (snd (tick fl large s))"
      using Suc.prems assms(1)
      by (simp_all add: tick_snd advance_fields advance_current_le advance_representable)
    from Suc.IH [OF this] False show ?thesis
      by (simp add: tick_snd advance_fields)
  qed
qed

lemma ticks_current_step:
  assumes "js_number fl" "fl (numericValue (snd s)) = numericValue (snd s)"
    and "fl (current (snd s)) = current (snd s)" "current (snd s) \<le> numericValue (snd s)"
    and "0 \<le> increment (snd s)"
  shows "current (snd (ticks fl large k s)) \<le> current (snd (ticks fl large (Suc k) s))"
proof -
  let ?a = "snd (ticks fl large k s)"
  have "0 \<le> increment ?a" "current ?a \<le> numericValue ?a" "fl (current ?a) = current ?a"
    using ticks_invariant [OF assms(1-4), of large k] ticks_fields [of fl large k s] assms(5) by simp_all
  then have "current ?a \<le> current (advance fl ?a)"
    by (rule advance_current_mono [OF assms(1)])
  then show ?thesis
    unfolding ticks_Suc_right by (simp add: tick_snd)
qed

lemma ticks_current_mono:
  assumes "js_number fl" "fl (numericValue (snd s)) = numericValue (snd s)"
    and "fl (current (snd s)) = current (snd s)" "current (snd s) \<le> numericValue (snd s)"
    and "0 \<le> increment (snd s)" "j \<le> k"
  shows "current (snd (ticks fl large j s)) \<le> current (snd (ticks fl large k s))"
  using assms(6)
  by (rule lift_Suc_mono_le [where f = "\<lambda>k. current (snd (ticks fl large k s))", rotated])
     (rule ticks_current_step [OF assms(1-5)])

text \<open>
  While the interval is registered the running value has grown by at least the
  increment, less the rounding, in every call.
\<close>

lemma ticks_growth:
  assumes "js_number fl" "0 \<le> increment (snd s)" "current (snd s) = 0"
    and "\<not> cleared (snd (ticks fl large k s))"
  shows "real k * increment (snd s) * (1 - unit_roundoff) ^ k \<le> current (snd (ticks fl large k s))
         \<and> current (snd (ticks fl large k s)) < numericValue (snd s) \<or> k = 0"
  using assms(4)
proof (induction k)
  case 0
  then show ?case by simp
next
  case (Suc k)
  let ?a = "snd (ticks fl large k s)"
  let ?i = "increment (snd s)"
  let ?q = "1 - unit_roundoff"
  have q: "0 \<le> ?q" "?q \<le> 1"
    using unit_roundoff_range by simp_all
  have running: "\<not> cleared ?a"
  proof
    assume c: "cleared ?a"
    then have "ticks fl large (Suc k) s = ticks fl large k s"
      by (simp only: ticks_Suc_right if_True)
    with Suc.prems have "\<not> cleared ?a"
      by (simp del: ticks.simps)
    with c show False
      by contradiction
  qed
  then have "ticks fl large (Suc k) s = tick fl large (ticks fl large k s)"
    by (simp only: ticks_Suc_right if_False)
  then have next_state: "snd (ticks fl large (Suc k) s) = advance fl ?a"
    by (simp only: tick_snd)
  have fields: "increment ?a = ?i" "numericValue ?a = numericValue (snd s)"
    using ticks_fields [of fl large k s] by simp_all
  have "\<not> cleared (advance fl ?a)"
    using Suc.prems unfolding next_state .
  then have below: "\<not> numericValue ?a \<le> fl (current ?a + ?i)"
    by (simp add: advance_cleared fields)
  then have "current (advance fl ?a) = fl (current ?a + ?i)"
    by (simp add: advance_current fields)
  then have cur: "current (snd (ticks fl large (Suc k) s)) = fl (current ?a + ?i)"
    by (simp only: next_state)
  have lower: "real k * ?i * ?q ^ k \<le> current ?a"
  proof (cases "k = 0")
    case True
    then show ?thesis
      using assms(3) by simp
  next
    case False
    then show ?thesis
      using Suc.IH [OF running] by blast
  qed
  have "0 \<le> real k * ?i * ?q ^ k"
    using assms(2) q(1) by simp
  then have nonneg: "0 \<le> current ?a + ?i"
    using lower assms(2) by linarith
  have "?q ^ k \<le> 1"
    using q by (rule power_le_one)
  then have "?i * ?q ^ k \<le> ?i * 1"
    using assms(2) by (rule mult_left_mono)
  then have "real k * ?i * ?q ^ k + ?i * ?q ^ k \<le> current ?a + ?i"
    using lower by linarith
  moreover have "real (Suc k) * ?i * ?q ^ k = real k * ?i * ?q ^ k + ?i * ?q ^ k"
    by (simp add: distrib_right)
  ultimately have "real (Suc k) * ?i * ?q ^ k \<le> current ?a + ?i"
    by (simp only:)
  then have "?q * (real (Suc k) * ?i * ?q ^ k) \<le> ?q * (current ?a + ?i)"
    using q(1) by (rule mult_left_mono)
  also have "\<dots> \<le> fl (current ?a + ?i)"
    using assms(1) nonneg by (rule fl_lower)
  finally have "?q * (real (Suc k) * ?i * ?q ^ k) \<le> current (snd (ticks fl large (Suc k) s))"
    by (simp only: cur)
  moreover have "?q * (real (Suc k) * ?i * ?q ^ k) = real (Suc k) * ?i * ?q ^ Suc k"
    by simp
  ultimately have "real (Suc k) * ?i * ?q ^ Suc k \<le> current (snd (ticks fl large (Suc k) s))"
    by (simp only:)
  moreover have "fl (current ?a + ?i) < numericValue (snd s)"
    using below by (simp add: fields)
  then have "current (snd (ticks fl large (Suc k) s)) < numericValue (snd s)"
    by (simp only: cur)
  ultimately show ?case
    by blast
qed


lemma forty_two_roundings: "40 / 41 \<le> (1 - unit_roundoff) ^ 42"
proof -
  have "1 + real 42 * (- unit_roundoff) \<le> (1 + (- unit_roundoff)) ^ 42"
    using unit_roundoff_range by (intro Bernoulli_inequality) simp
  moreover have "40 / 41 \<le> 1 + real 42 * (- unit_roundoff)"
    using unit_roundoff_range(2) by simp
  ultimately show ?thesis
    by simp
qed

lemma accumulate_bound:
  fixes t q P i :: real
  assumes "0 \<le> t" "40 / 41 \<le> q * P" "q * (t / 40) \<le> i" "0 \<le> P"
  shows "t \<le> 41 * i * P"
proof -
  have "41 * (q * (t / 40)) \<le> 41 * i"
    using assms(3) by (rule mult_left_mono) simp
  then have "41 * (q * (t / 40)) * P \<le> 41 * i * P"
    using assms(4) by (rule mult_right_mono)
  moreover have "41 * (q * (t / 40)) * P = 41 / 40 * t * (q * P)"
    by simp
  moreover have "41 / 40 * t * (40 / 41) \<le> 41 / 40 * t * (q * P)"
    using assms(2) by (rule mult_left_mono) (simp add: assms(1))
  moreover have "41 / 40 * t * (40 / 41) = t"
    by simp
  ultimately show ?thesis
    by linarith
qed

lemma cleared_by_41:
  assumes "js_number fl" "\<not> cleared a" "current a = 0" "0 \<le> numericValue a"
    and "increment a = fl (numericValue a / 40)"
  shows "cleared (snd (ticks fl large 41 (el, a)))"
proof (rule ccontr)
  assume running: "\<not> cleared (snd (ticks fl large 41 (el, a)))"
  let ?q = "1 - unit_roundoff"
  have q: "0 \<le> ?q"
    using unit_roundoff_range by simp
  have "0 \<le> numericValue a / 40"
    using assms(4) by simp
  with assms(1) have "?q * (numericValue a / 40) \<le> fl (numericValue a / 40)"
    by (rule fl_lower)
  then have i_lower: "?q * (numericValue a / 40) \<le> increment a"
    by (simp only: assms(5))
  have i_nonneg: "0 \<le> increment a"
    using assms(1,4) by (simp add: assms(5) fl_nonneg)
  have "?q ^ 42 = ?q * ?q ^ 41"
    using power_Suc [of ?q 41] by simp
  then have q42: "40 / 41 \<le> ?q * ?q ^ 41"
    using forty_two_roundings by (simp only:)
  have "numericValue a \<le> 41 * increment a * ?q ^ 41"
    using assms(4) q42 i_lower by (rule accumulate_bound) (rule zero_le_power [OF q])
  moreover have "real 41 * increment (snd (el, a)) * ?q ^ 41 \<le> current (snd (ticks fl large 41 (el, a)))
        \<and> current (snd (ticks fl large 41 (el, a))) < numericValue (snd (el, a)) \<or> (41 :: nat) = 0"
    using assms(1) _ _ running by (rule ticks_growth) (simp_all add: i_nonneg assms(3))
  ultimately show False
    by simp
qed

lemma ticks_cleared_current:
  assumes "\<not> cleared (snd s)" "cleared (snd (ticks fl large k s))"
  shows "current (snd (ticks fl large k s)) = numericValue (snd s)"
  using assms
proof (induction k arbitrary: s)
  case 0
  then show ?case by simp
next
  case (Suc k)
  show ?case
  proof (cases "cleared (snd (tick fl large s))")
    case True
    then have "numericValue (snd s) \<le> fl (current (snd s) + increment (snd s))"
      using Suc.prems(1) by (simp add: tick_snd advance_cleared)
    then have "current (snd (tick fl large s)) = numericValue (snd s)"
      by (simp add: tick_snd advance_current)
    then show ?thesis
      using Suc.prems(1) True by (simp add: ticks_cleared)
  next
    case False
    moreover have "cleared (snd (ticks fl large k (tick fl large s)))"
      using Suc.prems by simp
    ultimately have "current (snd (ticks fl large k (tick fl large s))) = numericValue (snd (tick fl large s))"
      by (rule Suc.IH)
    then show ?thesis
      using Suc.prems(1) by (simp add: tick_snd advance_fields)
  qed
qed

lemma digits_not_Nil: "digits n \<noteq> []"
  by (subst digits.simps) simp

lemma number_toString_nat: "n < 2 ^ 53 \<Longrightarrow> number_toString large (int n) = digits n"
  by (simp add: number_toString_def)

lemma digit_char_eval:
  "digit_char 0 = CHR ''0''" "digit_char 1 = CHR ''1''" "digit_char 2 = CHR ''2''"
  "digit_char 3 = CHR ''3''" "digit_char 4 = CHR ''4''" "digit_char 5 = CHR ''5''"
  "digit_char 6 = CHR ''6''" "digit_char 7 = CHR ''7''" "digit_char 8 = CHR ''8''"
  "digit_char 9 = CHR ''9''"
  by (simp_all add: digit_char_def char_of_def bit_Suc_0_iff)

lemma animateValue_Some:
  assumes "animateValue fl element = (el, Some a)"
  shows "el = element \<and> (\<exists>n. parseInt (replace_non_digits (textContent element)) = Some n
            \<and> numericValue a = fl (real n) \<and> increment a = fl (numericValue a / 40))
         \<and> current a = 0 \<and> \<not> cleared a
         \<and> hasPercent a = (CHR ''%'' \<in> set (textContent element))
         \<and> hasPlus a = (CHR ''+'' \<in> set (textContent element))
         \<and> hasMinus a = (CHR ''-'' \<in> set (textContent element))"
  using assms
  by (auto simp: animateValue_def Let_def steps_eq includes_char split: option.splits)

text \<open>The interval as \<open>animateValue\<close> starts it.\<close>

lemma interval_start:
  assumes "js_number fl" "animateValue fl element = (el, Some a)"
  shows "0 \<le> numericValue a" "0 \<le> increment a" "fl (numericValue a) = numericValue a"
    "current a = 0" "\<not> cleared a" "increment a = fl (numericValue a / 40)"
proof -
  from animateValue_Some [OF assms(2)] obtain n
    where n: "numericValue a = fl (real n)" "increment a = fl (numericValue a / 40)"
      and start: "current a = 0" "\<not> cleared a"
    by auto
  show nn: "0 \<le> numericValue a"
    unfolding n(1) using assms(1) by (rule fl_nonneg) simp
  show "0 \<le> increment a"
    unfolding n(2) using assms(1) by (rule fl_nonneg) (simp add: nn)
  show "fl (numericValue a) = numericValue a"
    unfolding n(1) using assms(1) by (rule fl_idem)
  show "current a = 0" "\<not> cleared a" "increment a = fl (numericValue a / 40)"
    by (fact start n(2))+
qed

lemma interval_ends:
  assumes "js_number fl" "animateValue fl element = (el, Some a)"
  shows "cleared (snd (ticks fl large 41 (el, a)))"
    "current (snd (ticks fl large 41 (el, a))) = numericValue a"
    "run_interval fl large 41 (el, a) = Some (ticks fl large 41 (el, a))"
proof -
  note start = interval_start [OF assms]
  show ended: "cleared (snd (ticks fl large 41 (el, a)))"
    using assms(1) start(5,4,1,6) by (rule cleared_by_41)
  show "current (snd (ticks fl large 41 (el, a))) = numericValue a"
    using ticks_cleared_current [of "(el, a)" fl large 41] start(5) ended by simp
  show "run_interval fl large 41 (el, a) = Some (ticks fl large 41 (el, a))"
    using ended by (simp only: run_interval_ticks if_True)
qed

subsection \<open>The final frame of the counter\<close>

text \<open>
  C1. For a counter element whose text holds a digit, \<open>animateValue\<close> starts an interval,
  the interval is cleared within 41 calls of its callback, and the text then shown is the
  parsed magnitude itself as \<open>Number::toString\<close> prints it (the running value is set to
  the target, not past it), with \<open>+\<close> and \<open>-\<close> put in front and \<open>%\<close> behind exactly when
  the original text held them. When the number \<open>n\<close> that the digits write is a safe
  integer, what is printed is the decimal numeral of \<open>n\<close>.
\<close>

theorem animateValue_final_text:
  assumes "js_number fl" "\<exists>c\<in>set (textContent element). is_digit c"
  shows "\<exists>n a s. parseInt (replace_non_digits (textContent element)) = Some n
           \<and> animateValue fl element = (element, Some a)
           \<and> numericValue a = fl (real n)
           \<and> run_interval fl large 41 (element, a) = Some s
           \<and> cleared (snd s) \<and> current (snd s) = numericValue a
           \<and> textContent (fst s) =
               (if CHR ''+'' \<in> set (textContent element) then ''+'' else [])
               @ (if CHR ''-'' \<in> set (textContent element) then ''-'' else [])
               @ number_toString large \<lfloor>numericValue a\<rfloor>
               @ (if CHR ''%'' \<in> set (textContent element) then ''%'' else [])
           \<and> (n < 2 ^ 53 \<and> fl (real n) = real n \<longrightarrow>
                number_toString large \<lfloor>numericValue a\<rfloor> = digits n)"
proof -
  from assms(2) obtain n where n: "parseInt (replace_non_digits (textContent element)) = Some n"
    using parseInt_replace_None [of "textContent element"]
    by (cases "parseInt (replace_non_digits (textContent element))") auto
  then obtain a where a: "animateValue fl element = (element, Some a)"
    by (simp add: animateValue_def Let_def)
  from animateValue_Some [OF a] n
  have av: "numericValue a = fl (real n)" "\<not> cleared a"
    "hasPercent a = (CHR ''%'' \<in> set (textContent element))"
    "hasPlus a = (CHR ''+'' \<in> set (textContent element))"
    "hasMinus a = (CHR ''-'' \<in> set (textContent element))"
    by auto
  let ?s = "ticks fl large 41 (element, a)"
  note fin = interval_ends [OF assms(1) a]
  have fields: "hasPercent (snd ?s) = hasPercent a" "hasPlus (snd ?s) = hasPlus a"
    "hasMinus (snd ?s) = hasMinus a"
    using ticks_fields [of fl large 41 "(element, a)"] by simp_all
  have shown: "textContent (fst ?s) = displayValue large (snd ?s)"
    by (rule ticks_text_started) (simp_all add: av(2))
  have "textContent (fst ?s) =
               (if CHR ''+'' \<in> set (textContent element) then ''+'' else [])
               @ (if CHR ''-'' \<in> set (textContent element) then ''-'' else [])
               @ number_toString large \<lfloor>numericValue a\<rfloor>
               @ (if CHR ''%'' \<in> set (textContent element) then ''%'' else [])"
    unfolding shown by (simp add: displayValue_def Let_def fields fin(2) av(3-5))
  moreover have "n < 2 ^ 53 \<and> fl (real n) = real n \<longrightarrow>
      number_toString large \<lfloor>numericValue a\<rfloor> = digits n"
    by (simp add: av(1) number_toString_nat)
  ultimately show ?thesis
    using n a av(1) fin by blast
qed

theorem animateValue_final_text_witness:
  "\<forall>large. \<exists>a s. animateValue (\<lambda>x. x) \<lparr>textContent = ''+98%''\<rparr> = (\<lparr>textContent = ''+98%''\<rparr>, Some a)
      \<and> run_interval (\<lambda>x. x) large 41 (\<lparr>textContent = ''+98%''\<rparr>, a) = Some s
      \<and> cleared (snd s) \<and> current (snd s) = 98
      \<and> textContent (fst s) = ''+98%''"
proof -
  have h: "\<exists>c\<in>set (textContent \<lparr>textContent = ''+98%''\<rparr>). is_digit c"
    by (simp add: is_digit_def)
  have p: "parseInt (replace_non_digits (textContent \<lparr>textContent = ''+98%''\<rparr>)) = Some 98"
    by (simp add: parseInt_def replace_non_digits_def is_digit_def digit_val_def)
  have d: "digits 98 = ''98''"
    by (simp add: digits.simps digit_char_eval)
  have "\<exists>a s. animateValue (\<lambda>x. x) \<lparr>textContent = ''+98%''\<rparr> = (\<lparr>textContent = ''+98%''\<rparr>, Some a)
      \<and> run_interval (\<lambda>x. x) large 41 (\<lparr>textContent = ''+98%''\<rparr>, a) = Some s
      \<and> cleared (snd s) \<and> current (snd s) = 98
      \<and> textContent (fst s) = ''+98%''" for large
    using animateValue_final_text [OF js_number_exact h, of large]
    unfolding p by (auto simp: d)
  then show ?thesis
    by blast
qed

subsection \<open>What \<open>animateValue\<close> reads from the text\<close>

lemma digit_val_digit_char: "d < 10 \<Longrightarrow> digit_val (digit_char d) = d"
  by (simp add: digit_val_def digit_char_def)

lemma is_digit_digit_char: "d < 10 \<Longrightarrow> is_digit (digit_char d)"
  by (simp add: is_digit_def digit_char_def)

lemma digit_char_digit_val: "is_digit c \<Longrightarrow> digit_char (digit_val c) = c"
  by (simp add: is_digit_def digit_char_def digit_val_def)

lemma digit_val_less: "is_digit c \<Longrightarrow> digit_val c < 10"
  unfolding is_digit_def digit_val_def by arith

lemma digit_val_zero: "digit_val CHR ''0'' = 0"
  by (simp add: digit_val_def)

lemma digits_small: "d < 10 \<Longrightarrow> digits d = [digit_char d]"
  by (subst digits.simps) simp

lemma digits_snoc: "0 < v \<Longrightarrow> d < 10 \<Longrightarrow> digits (10 * v + d) = digits v @ [digit_char d]"
  by (subst digits.simps) simp

lemma digits_of_digit_string:
  assumes "ds \<noteq> []" "\<forall>c\<in>set ds. is_digit c"
  shows "\<exists>z. ds = replicate z CHR ''0'' @ digits (foldl (\<lambda>a c. 10 * a + digit_val c) 0 ds)"
  using assms
proof (induction ds rule: rev_induct)
  case Nil
  then show ?case by simp
next
  case (snoc c ds)
  let ?val = "foldl (\<lambda>a c. 10 * a + digit_val c) 0"
  have c: "is_digit c" "digit_val c < 10"
    using snoc.prems(2) by (simp_all add: digit_val_less)
  show ?case
  proof (cases "ds = []")
    case True
    then have "ds @ [c] = replicate 0 CHR ''0'' @ digits (?val (ds @ [c]))"
      using c by (simp add: digits_small digit_char_digit_val)
    then show ?thesis by blast
  next
    case False
    then obtain z where z: "ds = replicate z CHR ''0'' @ digits (?val ds)"
      using snoc by auto
    show ?thesis
    proof (cases "?val ds = 0")
      case True
      then have "ds = replicate (Suc z) CHR ''0''"
        using z by (simp add: digits_small digit_char_eval(1) replicate_append_same)
      then have "ds @ [c] = replicate (Suc z) CHR ''0'' @ digits (?val (ds @ [c]))"
        using True c by (simp add: digits_small digit_char_digit_val)
      then show ?thesis by blast
    next
      case False
      then have "digits (?val (ds @ [c])) = digits (?val ds) @ [c]"
        using c by (simp add: digits_snoc digit_char_digit_val)
      then have "ds @ [c] = replicate z CHR ''0'' @ digits (?val (ds @ [c]))"
        using z by simp
      then show ?thesis by blast
    qed
  qed
qed

lemma parseInt_digit_string:
  assumes "parseInt (replace_non_digits text) = Some n"
  shows "\<exists>z. replace_non_digits text = replicate z CHR ''0'' @ digits n"
proof -
  let ?ds = "replace_non_digits text"
  have "?ds \<noteq> []" "n = foldl (\<lambda>a c. 10 * a + digit_val c) 0 ?ds"
    using assms
    by (auto simp: parseInt_def Let_def takeWhile_replace_non_digits split: if_splits)
  moreover have "\<forall>c\<in>set ?ds. is_digit c"
    by (simp add: replace_non_digits_def)
  ultimately show ?thesis
    using digits_of_digit_string [of ?ds] by simp
qed

lemma single_digit_sequence:
  assumes "ds \<noteq> []" "\<forall>c\<in>set ds. is_digit c" "\<forall>c\<in>set pre \<union> set post. \<not> is_digit c"
  shows "spec_first_digit_sequence (pre @ ds @ post) = replace_non_digits (pre @ ds @ post)"
proof -
  have "dropWhile (\<lambda>c. \<not> is_digit c) (pre @ ds @ post) = ds @ post"
    using assms by (cases ds) (simp_all add: dropWhile_append)
  moreover have "takeWhile is_digit (ds @ post) = ds"
    using assms by (cases post) (simp_all add: takeWhile_append)
  moreover have "filter is_digit (pre @ ds @ post) = ds"
    using assms by (simp add: filter_empty_conv filter_id_conv)
  ultimately show ?thesis
    by (simp add: spec_first_digit_sequence_def replace_non_digits_def)
qed

text \<open>
  The text \<open>24/7\<close>: the regular expression removes the slash, so \<open>parseInt\<close> reads
  \<open>247\<close> and the target is the double of 247, where the first sequence of digits is
  \<open>24\<close>.
\<close>

theorem animateValue_24_7:
  "\<forall>fl. animateValue fl \<lparr>textContent = ''24/7''\<rparr> =
     (\<lparr>textContent = ''24/7''\<rparr>,
      Some \<lparr>hasPercent = False, hasPlus = False, hasMinus = False, numericValue = fl 247,
            increment = fl (fl 247 / 40), current = 0, cleared = False\<rparr>)
   \<and> parseInt (replace_non_digits ''24/7'') = Some 247
   \<and> spec_magnitude ''24/7'' = Some 24"
  by (simp add: animateValue_def spec_magnitude_def spec_first_digit_sequence_def parseInt_def
      replace_non_digits_def is_digit_def digit_val_def steps_eq)

text \<open>
  C2, as the code has it. The three flags are the presence of \<open>+\<close>, \<open>-\<close> and \<open>%\<close>
  anywhere in the text. The magnitude is the double of the number \<open>n\<close> written by all the
  digits of the text in order: these digits are the decimal numeral of \<open>n\<close> after leading
  zeros. It is the first sequence of digits whenever the text has one sequence of digits
  only.
\<close>

theorem animateValue_parse:
  assumes "animateValue fl element = (el, Some a)"
  shows "hasPlus a = (CHR ''+'' \<in> set (textContent element))
       \<and> hasMinus a = (CHR ''-'' \<in> set (textContent element))
       \<and> hasPercent a = (CHR ''%'' \<in> set (textContent element))
       \<and> (\<exists>n z. numericValue a = fl (real n)
              \<and> filter is_digit (textContent element) = replicate z CHR ''0'' @ digits n
              \<and> (\<forall>pre ds post. textContent element = pre @ ds @ post \<and> ds \<noteq> []
                    \<and> (\<forall>c\<in>set ds. is_digit c) \<and> (\<forall>c\<in>set pre \<union> set post. \<not> is_digit c)
                    \<longrightarrow> spec_magnitude (textContent element) = Some n))"
proof -
  from animateValue_Some [OF assms] obtain n
    where n: "parseInt (replace_non_digits (textContent element)) = Some n"
      and nv: "numericValue a = fl (real n)"
      and flags: "hasPercent a = (CHR ''%'' \<in> set (textContent element))"
        "hasPlus a = (CHR ''+'' \<in> set (textContent element))"
        "hasMinus a = (CHR ''-'' \<in> set (textContent element))"
    by auto
  from parseInt_digit_string [OF n] obtain z
    where z: "filter is_digit (textContent element) = replicate z CHR ''0'' @ digits n"
    by (auto simp: replace_non_digits_def)
  have "spec_magnitude (textContent element) = Some n"
    if "textContent element = pre @ ds @ post" "ds \<noteq> []" "\<forall>c\<in>set ds. is_digit c"
      "\<forall>c\<in>set pre \<union> set post. \<not> is_digit c" for pre ds post
    using single_digit_sequence [OF that(2,3,4)] n
    by (simp add: spec_magnitude_def that(1))
  then show ?thesis
    using nv z flags by blast
qed

theorem animateValue_parse_witness:
  "\<exists>a. animateValue (\<lambda>x. x) \<lparr>textContent = ''+98%''\<rparr> = (\<lparr>textContent = ''+98%''\<rparr>, Some a)
      \<and> hasPlus a \<and> \<not> hasMinus a \<and> hasPercent a \<and> numericValue a = 98
      \<and> spec_magnitude ''+98%'' = Some 98"
proof -
  obtain a where a: "animateValue (\<lambda>x. x) \<lparr>textContent = ''+98%''\<rparr> = (\<lparr>textContent = ''+98%''\<rparr>, Some a)"
    and nv: "numericValue a = 98"
    by (simp add: animateValue_def parseInt_def replace_non_digits_def is_digit_def digit_val_def)
  from animateValue_parse [OF a] obtain n
    where "hasPlus a" "\<not> hasMinus a" "hasPercent a" "numericValue a = real n"
      and single: "\<And>pre ds post. ''+98%'' = pre @ ds @ post \<Longrightarrow> ds \<noteq> [] \<Longrightarrow> \<forall>c\<in>set ds. is_digit c
         \<Longrightarrow> \<forall>c\<in>set pre \<union> set post. \<not> is_digit c \<Longrightarrow> spec_magnitude ''+98%'' = Some n"
    by auto
  moreover have "n = 98"
    using nv \<open>numericValue a = real n\<close> by simp
  moreover have "spec_magnitude ''+98%'' = Some n"
    by (rule single [of "''+''" "''98''" "''%''"]) (simp_all add: is_digit_def)
  ultimately show ?thesis
    using a by auto
qed

subsection \<open>The values the counter shows\<close>

text \<open>
  C10. Once \<open>animateValue\<close> has started the interval, the number shown after \<open>j\<close> periods
  is at most the number shown after \<open>k \<ge> j\<close> periods, no number shown exceeds the target
  (the clamp is applied in every call, before the text is written), and from the first
  call on the text of the element is the decorated floor of the running value.
\<close>

theorem counter_display_monotone:
  assumes "js_number fl" "animateValue fl element = (el, Some a)"
  shows "(\<forall>j k. j \<le> k \<longrightarrow>
            \<lfloor>current (snd (ticks fl large j (el, a)))\<rfloor> \<le> \<lfloor>current (snd (ticks fl large k (el, a)))\<rfloor>)
       \<and> (\<forall>k. \<lfloor>current (snd (ticks fl large k (el, a)))\<rfloor> \<le> \<lfloor>numericValue a\<rfloor>)
       \<and> (\<forall>k. 0 < k \<longrightarrow>
            textContent (fst (ticks fl large k (el, a))) = displayValue large (snd (ticks fl large k (el, a))))"
proof -
  note start = interval_start [OF assms]
  have inv: "fl (numericValue (snd (el, a))) = numericValue (snd (el, a))"
    "fl (current (snd (el, a))) = current (snd (el, a))"
    "current (snd (el, a)) \<le> numericValue (snd (el, a))"
    "0 \<le> increment (snd (el, a))"
    using start fl_zero [OF assms(1)] by simp_all
  have "current (snd (ticks fl large j (el, a))) \<le> current (snd (ticks fl large k (el, a)))" if "j \<le> k" for j k
    using assms(1) inv that by (rule ticks_current_mono)
  then have mono: "\<lfloor>current (snd (ticks fl large j (el, a)))\<rfloor> \<le> \<lfloor>current (snd (ticks fl large k (el, a)))\<rfloor>"
    if "j \<le> k" for j k
    using that by (simp add: floor_mono)
  have "current (snd (ticks fl large k (el, a))) \<le> numericValue a" for k
    using ticks_invariant [OF assms(1) inv(1-3), of large k] by simp
  then have bound: "\<lfloor>current (snd (ticks fl large k (el, a)))\<rfloor> \<le> \<lfloor>numericValue a\<rfloor>" for k
    by (simp add: floor_mono)
  have shown: "textContent (fst (ticks fl large k (el, a))) = displayValue large (snd (ticks fl large k (el, a)))"
    if "0 < k" for k
    by (rule ticks_text_started) (simp_all add: start(5) that)
  show ?thesis
    using mono bound shown by blast
qed

theorem counter_display_monotone_witness:
  "\<forall>large. \<exists>a. animateValue (\<lambda>x. x) \<lparr>textContent = ''+98%''\<rparr> = (\<lparr>textContent = ''+98%''\<rparr>, Some a)
      \<and> \<lfloor>current (snd (ticks (\<lambda>x. x) large 1 (\<lparr>textContent = ''+98%''\<rparr>, a)))\<rfloor>
          \<le> \<lfloor>current (snd (ticks (\<lambda>x. x) large 2 (\<lparr>textContent = ''+98%''\<rparr>, a)))\<rfloor>
      \<and> \<lfloor>current (snd (ticks (\<lambda>x. x) large 2 (\<lparr>textContent = ''+98%''\<rparr>, a)))\<rfloor> \<le> 98
      \<and> textContent (fst (ticks (\<lambda>x. x) large 2 (\<lparr>textContent = ''+98%''\<rparr>, a)))
          = displayValue large (snd (ticks (\<lambda>x. x) large 2 (\<lparr>textContent = ''+98%''\<rparr>, a)))"
proof -
  have "\<exists>a. animateValue (\<lambda>x. x) \<lparr>textContent = ''+98%''\<rparr> = (\<lparr>textContent = ''+98%''\<rparr>, Some a)
      \<and> \<lfloor>current (snd (ticks (\<lambda>x. x) large 1 (\<lparr>textContent = ''+98%''\<rparr>, a)))\<rfloor>
          \<le> \<lfloor>current (snd (ticks (\<lambda>x. x) large 2 (\<lparr>textContent = ''+98%''\<rparr>, a)))\<rfloor>
      \<and> \<lfloor>current (snd (ticks (\<lambda>x. x) large 2 (\<lparr>textContent = ''+98%''\<rparr>, a)))\<rfloor> \<le> 98
      \<and> textContent (fst (ticks (\<lambda>x. x) large 2 (\<lparr>textContent = ''+98%''\<rparr>, a)))
          = displayValue large (snd (ticks (\<lambda>x. x) large 2 (\<lparr>textContent = ''+98%''\<rparr>, a)))" for large
  proof -
    obtain a where a: "animateValue (\<lambda>x. x) \<lparr>textContent = ''+98%''\<rparr> = (\<lparr>textContent = ''+98%''\<rparr>, Some a)"
      and nv: "numericValue a = 98"
      by (simp add: animateValue_def parseInt_def replace_non_digits_def is_digit_def digit_val_def)
    let ?s = "(\<lparr>textContent = ''+98%''\<rparr>, a)"
    let ?fl = "\<lambda>x :: real. x"
    from counter_display_monotone [OF js_number_exact a]
    have mono: "\<forall>j k. j \<le> k \<longrightarrow> \<lfloor>current (snd (ticks ?fl large j ?s))\<rfloor> \<le> \<lfloor>current (snd (ticks ?fl large k ?s))\<rfloor>"
      and bound: "\<forall>k. \<lfloor>current (snd (ticks ?fl large k ?s))\<rfloor> \<le> \<lfloor>numericValue a\<rfloor>"
      and shown: "\<forall>k. 0 < k \<longrightarrow> textContent (fst (ticks ?fl large k ?s)) = displayValue large (snd (ticks ?fl large k ?s))"
      by blast+
    have "\<lfloor>current (snd (ticks ?fl large 1 ?s))\<rfloor> \<le> \<lfloor>current (snd (ticks ?fl large 2 ?s))\<rfloor>"
      by (rule mono [rule_format]) simp
    moreover have "\<lfloor>current (snd (ticks ?fl large 2 ?s))\<rfloor> \<le> 98"
      using bound [rule_format, of 2] unfolding nv by simp
    moreover have "textContent (fst (ticks ?fl large 2 ?s)) = displayValue large (snd (ticks ?fl large 2 ?s))"
      by (rule shown [rule_format]) simp
    ultimately show ?thesis
      using a by blast
  qed
  then show ?thesis
    by blast
qed

subsection \<open>The loops end\<close>

lemma animate_again: "snd (animate width height startTime t) = (progress_at startTime t < 1)"
  by (simp add: animate_def Let_def)

lemma progress_at_range: "progress_at startTime t \<le> 1"
  by (simp add: progress_at_def)

lemma progress_at_one: "(progress_at startTime t = 1) = (startTime + 2000 \<le> t)"
  by (auto simp: progress_at_def animationDuration_def min_def)

lemma frame_loop_Cons:
  "frame_loop width height startTime (t # later) =
     (if progress_at startTime t < 1
      then (frame width height (progress_at startTime t) # fst (frame_loop width height startTime later),
            snd (frame_loop width height startTime later))
      else ([frame width height (progress_at startTime t)], False))"
  by (simp add: animate_def Let_def split: prod.splits)

lemma frame_loop_stops:
  "snd (frame_loop width height startTime readings)
     = (\<forall>t\<in>set readings. progress_at startTime t < 1)"
  by (induction readings) (simp_all add: frame_loop_Cons del: frame_loop.simps(2))

lemma frame_loop_frames:
  "length (fst (frame_loop width height startTime readings)) =
     (if \<forall>t\<in>set readings. progress_at startTime t < 1 then length readings
      else Suc (length (takeWhile (\<lambda>t. progress_at startTime t < 1) readings)))"
  by (induction readings) (simp_all add: frame_loop_Cons del: frame_loop.simps(2))

text \<open>
  C9. The interval of a counter is cleared at some call \<open>k\<close> of its callback with
  \<open>0 < k \<le> 41\<close>: it is registered before, the running value has then reached the
  target, and any run of at least \<open>k\<close> calls ends there. A chart frame requests another
  frame exactly when its progress is below 1, so the frame loop still has a frame
  requested only if every clock reading so far gave a progress below 1.
\<close>

theorem loops_terminate:
  assumes "js_number fl" "animateValue fl element = (el, Some a)"
  shows "(\<exists>k. 0 < k \<and> k \<le> 41
            \<and> (\<forall>j. j < k \<longrightarrow> \<not> cleared (snd (ticks fl large j (el, a))))
            \<and> cleared (snd (ticks fl large k (el, a)))
            \<and> numericValue a \<le> current (snd (ticks fl large k (el, a)))
            \<and> (\<forall>fuel. k \<le> fuel \<longrightarrow> run_interval fl large fuel (el, a) = Some (ticks fl large k (el, a))))
       \<and> (\<forall>width height startTime t.
            snd (animate width height startTime t) = (progress_at startTime t < 1))
       \<and> (\<forall>width height startTime readings.
            snd (frame_loop width height startTime readings)
              = (\<forall>t\<in>set readings. progress_at startTime t < 1))"
proof -
  note start = interval_start [OF assms]
  note fin = interval_ends [OF assms]
  define k where "k = (LEAST k. cleared (snd (ticks fl large k (el, a))))"
  have at_k: "cleared (snd (ticks fl large k (el, a)))"
    unfolding k_def using fin(1) by (rule LeastI)
  have before: "\<not> cleared (snd (ticks fl large j (el, a)))" if "j < k" for j
    using that unfolding k_def by (rule not_less_Least)
  have "k \<le> 41"
    unfolding k_def using fin(1) by (rule Least_le)
  moreover have "0 < k"
    using at_k start(5) by (cases k) simp_all
  moreover have "numericValue a \<le> current (snd (ticks fl large k (el, a)))"
    using ticks_cleared_current [of "(el, a)" fl large k] start(5) at_k by simp
  moreover have "run_interval fl large fuel (el, a) = Some (ticks fl large k (el, a))" if "k \<le> fuel" for fuel
    using ticks_stay_cleared [OF at_k that] at_k by (simp add: run_interval_ticks)
  ultimately have "\<exists>k. 0 < k \<and> k \<le> 41
            \<and> (\<forall>j. j < k \<longrightarrow> \<not> cleared (snd (ticks fl large j (el, a))))
            \<and> cleared (snd (ticks fl large k (el, a)))
            \<and> numericValue a \<le> current (snd (ticks fl large k (el, a)))
            \<and> (\<forall>fuel. k \<le> fuel \<longrightarrow> run_interval fl large fuel (el, a) = Some (ticks fl large k (el, a)))"
    using at_k before by blast
  then show ?thesis
    by (simp add: animate_again frame_loop_stops)
qed

theorem loops_terminate_witness:
  "\<forall>large. \<exists>a. animateValue (\<lambda>x. x) \<lparr>textContent = ''+98%''\<rparr> = (\<lparr>textContent = ''+98%''\<rparr>, Some a)
      \<and> run_interval (\<lambda>x. x) large 41 (\<lparr>textContent = ''+98%''\<rparr>, a) \<noteq> None
      \<and> \<not> snd (frame_loop 300 200 1000 [1000, 1016, 2500, 3016, 3032])"
proof -
  have "\<exists>a. animateValue (\<lambda>x. x) \<lparr>textContent = ''+98%''\<rparr> = (\<lparr>textContent = ''+98%''\<rparr>, Some a)
      \<and> run_interval (\<lambda>x. x) large 41 (\<lparr>textContent = ''+98%''\<rparr>, a) \<noteq> None
      \<and> \<not> snd (frame_loop 300 200 1000 [1000, 1016, 2500, 3016, 3032])" for large
  proof -
    obtain a where a: "animateValue (\<lambda>x. x) \<lparr>textContent = ''+98%''\<rparr> = (\<lparr>textContent = ''+98%''\<rparr>, Some a)"
      by (simp add: animateValue_def parseInt_def replace_non_digits_def is_digit_def digit_val_def)
    let ?s = "(\<lparr>textContent = ''+98%''\<rparr>, a)"
    let ?fl = "\<lambda>x :: real. x"
    from loops_terminate [OF js_number_exact a]
    have "\<exists>k. 0 < k \<and> k \<le> 41
              \<and> (\<forall>j. j < k \<longrightarrow> \<not> cleared (snd (ticks ?fl large j ?s)))
              \<and> cleared (snd (ticks ?fl large k ?s))
              \<and> numericValue a \<le> current (snd (ticks ?fl large k ?s))
              \<and> (\<forall>fuel. k \<le> fuel \<longrightarrow> run_interval ?fl large fuel ?s = Some (ticks ?fl large k ?s))"
      and loops: "\<forall>width height startTime readings.
              snd (frame_loop width height startTime readings)
                = (\<forall>t\<in>set readings. progress_at startTime t < 1)"
      by blast+
    then obtain k where k: "k \<le> 41"
      "\<forall>fuel. k \<le> fuel \<longrightarrow> run_interval ?fl large fuel ?s = Some (ticks ?fl large k ?s)"
      by blast
    note loop = loops [rule_format, of 300 200 1000 "[1000, 1016, 2500, 3016, 3032]"]
    have "run_interval ?fl large 41 ?s = Some (ticks ?fl large k ?s)"
      using k by blast
    then have "run_interval ?fl large 41 (\<lparr>textContent = ''+98%''\<rparr>, a) \<noteq> None"
      by simp
    moreover have "\<not> snd (frame_loop 300 200 1000 [1000, 1016, 2500, 3016, 3032])"
      unfolding loop by (simp add: progress_at_def animationDuration_def)
    ultimately show ?thesis
      using a by blast
  qed
  then show ?thesis
    by blast
qed

subsection \<open>One-shot observers\<close>

lemma action_of_inj: "(action_of kind t = action_of kind t') = (t = t')"
  by (cases kind) simp_all

lemma callback_count:
  "count_list (actions (callback kind batch ob)) (action_of kind t)
     = count_list (actions ob) (action_of kind t) + triggers t batch"
  by (induction batch arbitrary: ob) (auto simp: triggers_def action_of_inj)

lemma callback_observed:
  "observed (callback kind batch ob)
     = observed ob - target ` {entry \<in> set batch. isIntersecting entry}"
  by (induction batch arbitrary: ob) auto

lemma triggers_unobserved:
  assumes "list_all (\<lambda>entry. target entry \<in> observed ob) batch" "t \<notin> observed ob"
  shows "triggers t batch = 0"
  using assms by (auto simp: triggers_def list_all_iff filter_empty_conv)

lemma triggers_unobserve:
  assumes "0 < triggers t batch"
  shows "t \<notin> observed (callback kind batch ob)"
proof -
  from assms obtain entry where "entry \<in> set batch" "isIntersecting entry" "target entry = t"
    by (auto simp: triggers_def filter_empty_conv)
  then show ?thesis
    by (auto simp: callback_observed)
qed

lemma callback_one_shot:
  assumes "list_all (\<lambda>entry. target entry \<in> observed ob) batch"
    and "triggers t batch \<le> 1"
    and "count_list (actions ob) (action_of kind t) \<le> 1"
    and "0 < count_list (actions ob) (action_of kind t) \<longrightarrow> t \<notin> observed ob"
  shows "count_list (actions (callback kind batch ob)) (action_of kind t) \<le> 1
       \<and> (0 < count_list (actions (callback kind batch ob)) (action_of kind t)
            \<longrightarrow> t \<notin> observed (callback kind batch ob))"
proof (cases "0 < count_list (actions ob) (action_of kind t)")
  case True
  then have "t \<notin> observed ob"
    using assms(4) by simp
  then have "triggers t batch = 0" "t \<notin> observed (callback kind batch ob)"
    using assms(1) by (simp_all add: triggers_unobserved callback_observed)
  then show ?thesis
    using assms(3) by (simp add: callback_count)
next
  case False
  then show ?thesis
    using assms(2) triggers_unobserve [of t batch kind ob] by (simp add: callback_count)
qed

lemma run_batches_one_shot:
  assumes "browser_batches kind batches ob"
    and "\<forall>batch\<in>set batches. triggers t batch \<le> 1"
    and "count_list (actions ob) (action_of kind t) \<le> 1"
    and "0 < count_list (actions ob) (action_of kind t) \<longrightarrow> t \<notin> observed ob"
  shows "count_list (actions (run_batches kind batches ob)) (action_of kind t) \<le> 1
       \<and> (0 < count_list (actions (run_batches kind batches ob)) (action_of kind t)
            \<longrightarrow> t \<notin> observed (run_batches kind batches ob))"
  using assms
proof (induction batches arbitrary: ob)
  case Nil
  then show ?case by simp
next
  case (Cons batch batches)
  have step: "count_list (actions (callback kind batch ob)) (action_of kind t) \<le> 1
       \<and> (0 < count_list (actions (callback kind batch ob)) (action_of kind t)
            \<longrightarrow> t \<notin> observed (callback kind batch ob))"
    using Cons.prems by (intro callback_one_shot) simp_all
  have "browser_batches kind batches (callback kind batch ob)"
    "\<forall>batch\<in>set batches. triggers t batch \<le> 1"
    using Cons.prems by simp_all
  from Cons.IH [OF this] step show ?case
    by simp
qed

text \<open>
  A batch may hold several entries about one element: the browser queues an entry at
  each change of an element's intersection and hands all queued entries to one call of
  the callback, and \<open>unobserve\<close> does not touch the entries of the batch being
  processed. With two intersecting entries about the same counter in one batch,
  \<open>animateValue\<close> runs twice on it.
\<close>

theorem double_entry_triggers_twice:
  "browser_batches Stats
     [[\<lparr>target = 0, isIntersecting = True\<rparr>, \<lparr>target = 0, isIntersecting = True\<rparr>]]
     (observe_all [0 :: nat])
   \<and> actions (run_batches Stats
       [[\<lparr>target = 0, isIntersecting = True\<rparr>, \<lparr>target = 0, isIntersecting = True\<rparr>]]
       (observe_all [0 :: nat])) = [AnimateValue 0, AnimateValue 0]"
  by (simp add: observe_all_def)

text \<open>
  C3, as the code has it. For each of the four observers and each element \<open>t\<close>: when no
  batch holds more than one intersecting entry about \<open>t\<close>, the action of the observer
  runs at most once on \<open>t\<close> over any sequence of batches the browser delivers, and once
  it has run, \<open>t\<close> is no longer observed, so that no later batch is about \<open>t\<close>.
\<close>

theorem one_shot_observer:
  assumes "browser_batches kind batches (observe_all elements)"
    and "\<forall>batch\<in>set batches. triggers t batch \<le> 1"
  shows "count_list (actions (run_batches kind batches (observe_all elements))) (action_of kind t) \<le> 1
       \<and> (0 < count_list (actions (run_batches kind batches (observe_all elements))) (action_of kind t)
            \<longrightarrow> t \<notin> observed (run_batches kind batches (observe_all elements)))"
  using assms by (intro run_batches_one_shot) (simp_all add: observe_all_def)

theorem one_shot_observer_witness:
  "browser_batches Entrance
     [[\<lparr>target = 1, isIntersecting = False\<rparr>, \<lparr>target = 2, isIntersecting = True\<rparr>],
      [\<lparr>target = 1, isIntersecting = True\<rparr>, \<lparr>target = 1, isIntersecting = False\<rparr>]]
     (observe_all [1 :: nat, 2])
   \<and> triggers (1 :: nat) [\<lparr>target = 1, isIntersecting = True\<rparr>, \<lparr>target = 1, isIntersecting = False\<rparr>] = 1
   \<and> count_list (actions (run_batches Entrance
       [[\<lparr>target = 1, isIntersecting = False\<rparr>, \<lparr>target = 2, isIntersecting = True\<rparr>],
        [\<lparr>target = 1, isIntersecting = True\<rparr>, \<lparr>target = 1, isIntersecting = False\<rparr>]]
       (observe_all [1 :: nat, 2]))) (AddAnimateIn 1) \<le> 1
   \<and> actions (run_batches Entrance
       [[\<lparr>target = 1, isIntersecting = False\<rparr>, \<lparr>target = 2, isIntersecting = True\<rparr>],
        [\<lparr>target = 1, isIntersecting = True\<rparr>, \<lparr>target = 1, isIntersecting = False\<rparr>]]
       (observe_all [1 :: nat, 2])) = [AddAnimateIn 2, AddAnimateIn 1]"
proof -
  let ?batches = "[[\<lparr>target = 1 :: nat, isIntersecting = False\<rparr>, \<lparr>target = 2, isIntersecting = True\<rparr>],
      [\<lparr>target = 1, isIntersecting = True\<rparr>, \<lparr>target = 1, isIntersecting = False\<rparr>]]"
  have b: "browser_batches Entrance ?batches (observe_all [1, 2])"
    by (simp add: observe_all_def)
  have t: "\<forall>batch\<in>set ?batches. triggers 1 batch \<le> 1"
    by (simp add: triggers_def)
  from one_shot_observer [OF b t, of ] show ?thesis
    using b by (simp add: triggers_def observe_all_def)
qed

subsection \<open>Absent elements\<close>

lemma optional_elements_skipped:
  "menuToggle p = None \<Longrightarrow> MenuClick \<notin> set (registered p)"
  "contactForm p = None \<Longrightarrow> FormSubmit \<notin> set (registered p)"
  "chartCanvas p = None \<Longrightarrow> ChartIntersection \<notin> set (registered p)"
  "heroContent p = None \<Longrightarrow> parallax_scroll_listener p = Inr p"
  by (simp_all add: registered_def parallax_scroll_listener_def)

lemma header_scroll_always_registered: "HeaderScroll \<in> set (registered p)"
  by (simp add: registered_def)

text \<open>
  C4. The claim holds for the menu toggle, the form, the canvas and the hero content
  (\<open>optional_elements_skipped\<close>), and fails for the header: its scroll listener is
  registered whether or not the header exists, and on a page without a header every
  scroll event makes it throw a \<open>TypeError\<close>.
\<close>

theorem header_scroll_absent_header:
  "header_scroll_listener (p\<lparr>header := None\<rparr>) = Inl TypeError
   \<and> fst (scroll_event (p\<lparr>header := None\<rparr>)) = [TypeError]
   \<and> HeaderScroll \<in> set (registered (p\<lparr>header := None\<rparr>))"
  by (simp add: header_scroll_listener_def scroll_event_def parallax_scroll_listener_def
      registered_def Let_def split: option.splits)

subsection \<open>Parallax\<close>

text \<open>
  C6. When the hero content exists, a scroll event at offset \<open>s\<close> sets its vertical
  translation to \<open>0.5 * s\<close> and its opacity to \<open>1 - s / 600\<close>, unclamped: \<open>0.5\<close> at
  \<open>s = 300\<close>, \<open>0\<close> at \<open>s = 600\<close>, negative beyond.
\<close>

theorem parallax_formula:
  assumes "heroContent p = Some h"
  shows "\<exists>h'. parallax_scroll_listener p = Inr (p\<lparr>heroContent := Some h'\<rparr>)
           \<and> transform h' = TranslateY (0.5 * scrollY p)
           \<and> opacity h' = 1 - scrollY p / 600
           \<and> (scrollY p = 300 \<longrightarrow> opacity h' = 0.5)
           \<and> (scrollY p = 600 \<longrightarrow> opacity h' = 0)
           \<and> (600 < scrollY p \<longrightarrow> opacity h' < 0)"
proof -
  let ?h' = "h\<lparr>transform := TranslateY (scrollY p * 0.5), opacity := 1 - (scrollY p / 600)\<rparr>"
  have "parallax_scroll_listener p = Inr (p\<lparr>heroContent := Some ?h'\<rparr>)"
    using assms by (simp add: parallax_scroll_listener_def Let_def)
  then show ?thesis
    by (intro exI [of _ ?h']) simp
qed

theorem parallax_formula_witness:
  "\<exists>h'. parallax_scroll_listener
       \<lparr>menuToggle = None, navMenu = None, header = None,
        heroContent = Some \<lparr>transform = TranslateY 0, opacity = 1\<rparr>,
        contactForm = None, chartCanvas = None, scrollY = 900\<rparr>
     = Inr \<lparr>menuToggle = None, navMenu = None, header = None, heroContent = Some h',
        contactForm = None, chartCanvas = None, scrollY = 900\<rparr>
     \<and> transform h' = TranslateY 450 \<and> opacity h' = - (1 / 2) \<and> opacity h' < 0"
proof -
  let ?p = "\<lparr>menuToggle = None, navMenu = None, header = None,
        heroContent = Some \<lparr>transform = TranslateY 0, opacity = 1\<rparr>,
        contactForm = None, chartCanvas = None, scrollY = 900\<rparr>"
  have h: "heroContent ?p = Some \<lparr>transform = TranslateY 0, opacity = 1\<rparr>"
    by simp
  from parallax_formula [OF h] obtain h'
    where "parallax_scroll_listener ?p = Inr (?p\<lparr>heroContent := Some h'\<rparr>)"
      "transform h' = TranslateY (0.5 * scrollY ?p)" "opacity h' = 1 - scrollY ?p / 600"
      "600 < scrollY ?p \<longrightarrow> opacity h' < 0"
    by blast
  then show ?thesis
    by (intro exI [of _ h']) simp
qed

subsection \<open>Form submission\<close>














subsection \<open>Chart frames\<close>

lemma length_data: "length data = 12"
  by (simp add: data_def)

lemma maxValue_data: "Max (set data) = 110"
  by (simp add: data_def)

lemma slice0_in_range: "0 \<le> k \<Longrightarrow> k \<le> int (length xs) \<Longrightarrow> slice0 xs k = take (nat k) xs"
  by (simp add: slice0_def Let_def min_def)

lemma length_slice0: "0 \<le> k \<Longrightarrow> k \<le> int (length xs) \<Longrightarrow> length (slice0 xs k) = nat k"
  by (simp add: slice0_in_range)

lemma length_points_slice: "length (points width height progress) = length (slice0 data \<lfloor>real (length data) * progress\<rfloor>)"
  by (simp add: points_def Let_def)

lemma visible_range:
  assumes "0 \<le> (progress :: real)" "progress \<le> 1"
  shows "0 \<le> \<lfloor>12 * progress\<rfloor>" "\<lfloor>12 * progress\<rfloor> \<le> 12"
proof -
  show "0 \<le> \<lfloor>12 * progress\<rfloor>"
    using assms(1) by simp
  have "12 * progress \<le> 12"
    using assms(2) by simp
  then have "\<lfloor>12 * progress\<rfloor> \<le> \<lfloor>12 :: real\<rfloor>"
    by (rule floor_mono)
  then show "\<lfloor>12 * progress\<rfloor> \<le> 12"
    by simp
qed

lemma length_points:
  assumes "0 \<le> progress" "progress \<le> 1"
  shows "length (points width height progress) = nat \<lfloor>12 * progress\<rfloor>"
  using visible_range [OF assms]
  by (simp add: length_points_slice length_data length_slice0)

lemma grid_ops:
  "Fill \<notin> set (draw_grid width height)"
  "Arc x y r a b \<notin> set (draw_grid width height)"
  "StrokeStyle (Color ''#d4af37'') \<notin> set (draw_grid width height)"
  by (auto simp: draw_grid_def Let_def)

lemma area_ops: "Fill \<in> set (draw_area height pts)"
  by (simp add: draw_area_def)

lemma line_ops: "StrokeStyle (Color ''#d4af37'') \<in> set (draw_line pts)" "Stroke \<in> set (draw_line pts)"
  by (simp_all add: draw_line_def)

lemma points_ops:
  "(Arc x y r a b \<in> set (draw_points pts)) = ((x, y) \<in> set pts \<and> r = 4 \<and> a = 0 \<and> b = Math_PI * 2)"
  by (force simp: draw_points_def)

lemma frame_few_points:
  "length (points width height progress) < 2 \<Longrightarrow>
   frame width height progress = ClearRect 0 0 width height # draw_grid width height"
  by (simp add: frame_def Let_def)

lemma frame_many_points:
  "2 \<le> length (points width height progress) \<Longrightarrow>
   frame width height progress = ClearRect 0 0 width height # draw_grid width height
     @ draw_area height (points width height progress)
     @ draw_line (points width height progress)
     @ draw_points (points width height progress)"
  by (simp add: frame_def Let_def)

lemma frame_fill:
  "(Fill \<in> set (frame width height progress)) = (2 \<le> length (points width height progress))"
proof (cases "2 \<le> length (points width height progress)")
  case True
  then show ?thesis
    by (simp add: frame_many_points area_ops)
next
  case False
  then show ?thesis
    by (simp add: frame_few_points grid_ops)
qed

lemma frame_line:
  "(StrokeStyle (Color ''#d4af37'') \<in> set (frame width height progress))
     = (2 \<le> length (points width height progress))"
proof (cases "2 \<le> length (points width height progress)")
  case True
  then show ?thesis
    by (simp add: frame_many_points line_ops)
next
  case False
  then show ?thesis
    by (simp add: frame_few_points grid_ops)
qed

lemma frame_arcs:
  "(\<exists>x y. Arc x y 4 0 (Math_PI * 2) \<in> set (frame width height progress))
     = (2 \<le> length (points width height progress))"
proof (cases "2 \<le> length (points width height progress)")
  case True
  then obtain pt rest where pts: "points width height progress = pt # rest"
    by (cases "points width height progress") auto
  have "Arc (fst pt) (snd pt) 4 0 (Math_PI * 2) \<in> set (draw_points (points width height progress))"
    by (simp add: points_ops pts)
  then have "Arc (fst pt) (snd pt) 4 0 (Math_PI * 2) \<in> set (frame width height progress)"
    using True by (simp add: frame_many_points)
  then show ?thesis
    using True by blast
next
  case False
  then show ?thesis
    by (simp add: frame_few_points grid_ops)
qed

text \<open>
  C7. In a frame with progress \<open>p\<close> between 0 and 1 the number of points is
  \<open>floor (12 * p)\<close>, so 12 at \<open>p = 1\<close> and 0 at \<open>p = 0\<close>; the fill, the stroke in the
  colour of the line and the circles are in the frame exactly when there are at least 2
  points, and with fewer the frame is the cleared canvas with the grid.
\<close>

theorem chart_frame_points:
  assumes "0 \<le> progress" "progress \<le> 1"
  shows "length (points width height progress) = nat \<lfloor>12 * progress\<rfloor>
       \<and> (progress = 1 \<longrightarrow> length (points width height progress) = 12)
       \<and> (progress = 0 \<longrightarrow> length (points width height progress) = 0)
       \<and> (Fill \<in> set (frame width height progress)) = (2 \<le> nat \<lfloor>12 * progress\<rfloor>)
       \<and> (StrokeStyle (Color ''#d4af37'') \<in> set (frame width height progress))
           = (2 \<le> nat \<lfloor>12 * progress\<rfloor>)
       \<and> (\<exists>x y. Arc x y 4 0 (Math_PI * 2) \<in> set (frame width height progress))
           = (2 \<le> nat \<lfloor>12 * progress\<rfloor>)
       \<and> (nat \<lfloor>12 * progress\<rfloor> < 2 \<longrightarrow>
            frame width height progress = ClearRect 0 0 width height # draw_grid width height)"
proof -
  have n: "length (points width height progress) = nat \<lfloor>12 * progress\<rfloor>"
    using assms by (rule length_points)
  have "progress = 1 \<longrightarrow> length (points width height progress) = 12"
    "progress = 0 \<longrightarrow> length (points width height progress) = 0"
    using n by auto
  moreover have "nat \<lfloor>12 * progress\<rfloor> < 2 \<longrightarrow>
       frame width height progress = ClearRect 0 0 width height # draw_grid width height"
    using frame_few_points [of width height progress] n by simp
  ultimately show ?thesis
    using n frame_fill [of width height progress] frame_line [of width height progress]
      frame_arcs [of width height progress]
    by simp
qed

theorem chart_frame_points_witness:
  "length (points 300 200 (1 / 4)) = 3
   \<and> Fill \<in> set (frame 300 200 (1 / 4))
   \<and> length (points 300 200 1) = 12
   \<and> length (points 300 200 0) = 0
   \<and> Fill \<notin> set (frame 300 200 (1 / 12))"
proof -
  have "length (points 300 200 (1 / 4)) = 3" "Fill \<in> set (frame 300 200 (1 / 4))"
    using chart_frame_points [of "1 / 4" 300 200] by simp_all
  moreover have "length (points 300 200 1) = 12"
    using chart_frame_points [of 1 300 200] by simp
  moreover have "length (points 300 200 0) = 0"
    using chart_frame_points [of 0 300 200] by simp
  moreover have "Fill \<notin> set (frame 300 200 (1 / 12))"
    using chart_frame_points [of "1 / 12" 300 200] by (simp add: grid_ops)
  ultimately show ?thesis
    by simp
qed

end
